theory Spec2Isabelle
  imports Complex_Main "HOL-Library.Word"
begin

unbundle bit_operations_syntax

chapter \<open>Cooler\_Power: MODBUS transport, CL-500W driver, PID controller, auto-tuner, safety\<close>

text \<open>
  A shallow embedding of the hardware-control stack of the repository:
  \<^item> \<^verbatim>\<open>src/drivers/modbus_rtu.py\<close>: \<^verbatim>\<open>CRC16\<close>, \<^verbatim>\<open>ModbusResponse\<close>, \<^verbatim>\<open>ModbusRTU._transact\<close>;
  \<^item> \<^verbatim>\<open>src/drivers/cl500w_driver.py\<close> and \<^verbatim>\<open>src/protocol/power_supply_base.py\<close>;
  \<^item> \<^verbatim>\<open>src/pid_controller.py\<close>: \<^verbatim>\<open>PIDController\<close> and \<^verbatim>\<open>PIDAutoTuner\<close>;
  \<^item> \<^verbatim>\<open>src/workers/hardware_worker.py\<close>: the control tick and the safety stop.

  Conventions. Python's unbounded \<^verbatim>\<open>int\<close> is \<^typ>\<open>nat\<close> where the value is never negative,
  a \<^verbatim>\<open>bytes\<close> object is a list of 8-bit words, and a Python \<^verbatim>\<open>float\<close> is a \<^typ>\<open>real\<close>:
  comparisons, \<^verbatim>\<open>min\<close>, \<^verbatim>\<open>max\<close> and \<^verbatim>\<open>abs\<close> are exact on finite floats, rounding of
  \<^verbatim>\<open>+\<close>, \<^verbatim>\<open>*\<close>, \<^verbatim>\<open>/\<close> and the values NaN and infinity are not modelled. A raise of the
  source is a value of the model (\<open>None\<close>, or a constructor of the result type), and the
  wall clock \<^verbatim>\<open>time.time()\<close> is a parameter of every function that reads it.
\<close>

section \<open>CRC16 (modbus\_rtu.py)\<close>

type_synonym byte = "8 word"
type_synonym bytes = "byte list"

text \<open>
  The body of the inner loop of \<^verbatim>\<open>CRC16._init_table\<close>:
  \<^verbatim>\<open>if crc & 1: crc = (crc >> 1) ^ 0xA001  else: crc >>= 1\<close>.
\<close>

definition crc_shift :: "nat \<Rightarrow> nat" where
  "crc_shift crc = (if crc AND 1 \<noteq> 0 then (drop_bit 1 crc) XOR 0xA001 else drop_bit 1 crc)"

text \<open>\<^verbatim>\<open>crc = i; for _ in range(8): ...\<close>: the table entry of index \<open>i\<close>.\<close>

definition table_entry :: "nat \<Rightarrow> nat" where
  "table_entry i = (crc_shift ^^ 8) i"

text \<open>\<^verbatim>\<open>for i in range(256): ... cls._TABLE.append(crc)\<close>.\<close>

definition TABLE :: "nat list" where
  "TABLE = map table_entry [0..<256]"

text \<open>
  One round of \<^verbatim>\<open>CRC16.calculate\<close>:
  \<^verbatim>\<open>crc = (crc >> 8) ^ cls._TABLE[(crc ^ byte) & 0xFF]\<close>. The index is below 256
  (lemma \<open>and_255_bound\<close>), so the table read never leaves the table.
\<close>

definition crc_update :: "byte \<Rightarrow> nat \<Rightarrow> nat" where
  "crc_update byte crc = (drop_bit 8 crc) XOR (TABLE ! ((crc XOR unat byte) AND 0xFF))"

definition CRC16_calculate :: "bytes \<Rightarrow> nat" where
  "CRC16_calculate d = fold crc_update d 0xFFFF"

text \<open>
  \<^verbatim>\<open>struct.pack('<H', v)\<close>: two bytes, low byte first; \<^verbatim>\<open>struct.error\<close> (here \<open>None\<close>) when
  \<open>v\<close> does not fit 16 bits. \<^verbatim>\<open>struct.unpack('<H', b)[0]\<close> needs exactly two bytes.
\<close>

definition pack_le_H :: "nat \<Rightarrow> bytes option" where
  "pack_le_H v =
     (if v \<le> 65535 then Some [word_of_nat (v mod 256), word_of_nat (v div 256)] else None)"

fun unpack_le_H :: "bytes \<Rightarrow> nat option" where
  "unpack_le_H [b0, b1] = Some (unat b0 + 256 * unat b1)"
| "unpack_le_H _ = None"

text \<open>\<^verbatim>\<open>CRC16.append\<close>: \<^verbatim>\<open>data + struct.pack('<H', crc)\<close>.\<close>

definition CRC16_append :: "bytes \<Rightarrow> bytes option" where
  "CRC16_append d =
     (case pack_le_H (CRC16_calculate d) of None \<Rightarrow> None | Some c \<Rightarrow> Some (d @ c))"

text \<open>
  \<^verbatim>\<open>CRC16.verify\<close>. \<^verbatim>\<open>data[:-2]\<close> is \<open>take (length d - 2) d\<close> and \<^verbatim>\<open>data[-2:]\<close> is
  \<open>drop (length d - 2) d\<close>; behind the length guard the latter has exactly two bytes, so
  the unpacking cannot raise.
\<close>

definition CRC16_verify :: "bytes \<Rightarrow> bool" where
  "CRC16_verify d =
     (if length d < 3 then False
      else let payload = take (length d - 2) d;
               received_crc = unpack_le_H (drop (length d - 2) d);
               calculated_crc = CRC16_calculate payload
           in received_crc = Some calculated_crc)"

section \<open>ModbusResponse (modbus\_rtu.py)\<close>

record ModbusResponse =
  slave_address :: nat
  function_code :: nat
  data :: bytes
  is_error :: bool
  error_code :: nat

text \<open>\<^verbatim>\<open>struct.unpack('>H', b)[0]\<close>: exactly two bytes, high byte first.\<close>

fun unpack_be_H :: "bytes \<Rightarrow> nat option" where
  "unpack_be_H [b0, b1] = Some (256 * unat b0 + unat b1)"
| "unpack_be_H _ = None"

text \<open>The Python slice \<^verbatim>\<open>xs[i:j]\<close> for \<open>0 \<le> i \<le> j\<close>.\<close>

definition slice :: "'a list \<Rightarrow> nat \<Rightarrow> nat \<Rightarrow> 'a list" where
  "slice xs i j = take (j - i) (drop i xs)"

text \<open>
  The loop of the property \<^verbatim>\<open>ModbusResponse.registers\<close>,
  \<^verbatim>\<open>for i in range(0, len(self.data), 2): if i + 1 < len(self.data): ...\<close>,
  as a recursion on the index; \<open>None\<close> is the \<^verbatim>\<open>struct.error\<close> of the unpacking.
\<close>

function registers_loop :: "bytes \<Rightarrow> nat \<Rightarrow> nat list \<Rightarrow> nat list option" where
  "registers_loop d i result =
     (if i < length d
      then (if i + 1 < length d
            then (case unpack_be_H (slice d i (i + 2)) of
                    None \<Rightarrow> None
                  | Some v \<Rightarrow> registers_loop d (i + 2) (result @ [v]))
            else registers_loop d (i + 2) result)
      else Some result)"
  by pat_completeness auto
termination
  by (relation "measure (\<lambda>(d, i, result). length d - i)") auto

declare registers_loop.simps [simp del]

definition registers :: "ModbusResponse \<Rightarrow> nat list option" where
  "registers r = registers_loop (data r) 0 []"

text \<open>The big-endian 16-bit value at the byte positions \<open>2k\<close> and \<open>2k + 1\<close>.\<close>

definition be16 :: "bytes \<Rightarrow> nat \<Rightarrow> nat" where
  "be16 d k = 256 * unat (d ! (2 * k)) + unat (d ! (2 * k + 1))"

section \<open>PIDController (pid\_controller.py)\<close>

text \<open>
  The fields of \<^verbatim>\<open>PIDController.__init__\<close>; the private \<^verbatim>\<open>_integral\<close>, \<^verbatim>\<open>_last_error\<close>,
  \<^verbatim>\<open>_last_derivative\<close>, \<^verbatim>\<open>_output\<close> and \<^verbatim>\<open>_last_time\<close> lose their underscore, and
  \<^verbatim>\<open>_output\<close> is \<open>pid_output\<close>.
\<close>

record PIDController =
  kp :: real
  ki :: real
  kd :: real
  output_min :: real
  output_max :: real
  integral :: real
  last_error :: real
  last_derivative :: real
  pid_output :: real
  last_time :: "real option"
  reverse :: bool
  derivative_filter :: real
  output_rate_limit :: real

text \<open>\<^verbatim>\<open>PIDController(kp, ki, kd, output_min, output_max)\<close>; the defaults are 1.0, 0.05, 0.5, 0.0, 7.0.\<close>

definition PIDController_init :: "real \<Rightarrow> real \<Rightarrow> real \<Rightarrow> real \<Rightarrow> real \<Rightarrow> PIDController" where
  "PIDController_init kp0 ki0 kd0 omin omax =
     \<lparr>kp = kp0, ki = ki0, kd = kd0, output_min = omin, output_max = omax,
      integral = 0, last_error = 0, last_derivative = 0, pid_output = 0, last_time = None,
      reverse = False, derivative_filter = 0.3, output_rate_limit = 2.0\<rparr>"

text \<open>\<^verbatim>\<open>PIDController.reset\<close>.\<close>

definition reset :: "PIDController \<Rightarrow> PIDController" where
  "reset c = c\<lparr>integral := 0, last_error := 0, last_derivative := 0, pid_output := 0,
               last_time := None\<rparr>"

text \<open>
  \<^verbatim>\<open>PIDController.compute\<close>, block by block. The time step: 1.0 on the first call after a
  reset, else \<^verbatim>\<open>max(0.01, now - self._last_time)\<close>.
\<close>

definition time_step :: "real \<Rightarrow> PIDController \<Rightarrow> real" where
  "time_step now c = (case last_time c of None \<Rightarrow> 1.0 | Some t \<Rightarrow> max 0.01 (now - t))"

text \<open>
  The error, the P, I and D terms and their sum \<^verbatim>\<open>raw_output\<close>. The two divisions cannot
  raise: the first divisor is at least 0.001, the second is guarded by \<^verbatim>\<open>dt > 0\<close>.
\<close>

definition pid_terms :: "PIDController \<Rightarrow> real \<Rightarrow> real \<Rightarrow> real \<Rightarrow> PIDController \<times> real" where
  "pid_terms c dt setpoint measured =
     (let error = (if reverse c then setpoint - measured else measured - setpoint);
          p_term = kp c * error;
          c = c\<lparr>integral := integral c + error * dt\<rparr>;
          i_limit = output_max c / max (ki c) 0.001;
          c = c\<lparr>integral := max (- i_limit) (min i_limit (integral c))\<rparr>;
          i_term = ki c * integral c;
          raw_derivative = (if dt > 0 then (error - last_error c) / dt else 0.0);
          alpha = derivative_filter c;
          filtered_d = alpha * raw_derivative + (1 - alpha) * last_derivative c;
          c = c\<lparr>last_derivative := filtered_d\<rparr>;
          d_term = kd c * filtered_d;
          c = c\<lparr>last_error := error\<rparr>;
          raw_output = p_term + i_term + d_term
      in (c, raw_output))"

text \<open>Anti-windup: the integral is backed off when the clamp changed the output.\<close>

definition anti_windup :: "PIDController \<Rightarrow> real \<Rightarrow> real \<Rightarrow> PIDController" where
  "anti_windup c raw_output new_output =
     (if \<bar>new_output - raw_output\<bar> > 0.001 \<and> \<bar>ki c\<bar> > 0.0001
      then c\<lparr>integral := integral c - (raw_output - new_output) / ki c * 0.5\<rparr>
      else c)"

text \<open>The output rate limiter, relative to the stored last output.\<close>

definition rate_limit :: "PIDController \<Rightarrow> real \<Rightarrow> real \<Rightarrow> real" where
  "rate_limit c dt new_output =
     (if output_rate_limit c > 0 \<and> dt > 0
      then (let max_change = output_rate_limit c * dt;
                change = new_output - pid_output c
            in if \<bar>change\<bar> > max_change
               then pid_output c + max_change * (if change > 0 then 1 else - 1)
               else new_output)
      else new_output)"

text \<open>\<^verbatim>\<open>compute(setpoint, measured)\<close> at wall-clock time \<open>now\<close>: the new controller and the returned output.\<close>

definition compute :: "real \<Rightarrow> PIDController \<Rightarrow> real \<Rightarrow> real \<Rightarrow> PIDController \<times> real" where
  "compute now c setpoint measured =
     (let dt = time_step now c;
          c = c\<lparr>last_time := Some now\<rparr>;
          (c, raw_output) = pid_terms c dt setpoint measured;
          new_output = max (output_min c) (min (output_max c) raw_output);
          c = anti_windup c raw_output new_output;
          new_output = rate_limit c dt new_output;
          c = c\<lparr>pid_output := new_output\<rparr>
      in (c, pid_output c))"

text \<open>A sequence of \<^verbatim>\<open>compute\<close> calls, each with its clock reading, setpoint and measurement.\<close>

fun run :: "PIDController \<Rightarrow> (real \<times> real \<times> real) list \<Rightarrow> PIDController \<times> real list" where
  "run c [] = (c, [])"
| "run c ((now, setpoint, measured) # calls) =
     (let (c1, out) = compute now c setpoint measured;
          (c2, outs) = run c1 calls
      in (c2, out # outs))"

section \<open>Properties of the CRC engine\<close>

lemma xor_bound16: "(a::nat) < 65536 \<Longrightarrow> b < 65536 \<Longrightarrow> a XOR b < 65536"
proof -
  assume a: "a < 65536" and b: "b < 65536"
  have "take_bit 16 (a XOR b) = take_bit 16 a XOR take_bit 16 b"
    by (rule take_bit_xor)
  also have "\<dots> = a XOR b"
    using a b by (simp add: take_bit_nat_eq_self)
  finally have "a XOR b < 2 ^ 16"
    by (simp only: take_bit_nat_eq_self_iff)
  then show ?thesis by simp
qed

lemma drop_bit_bound16: "(a::nat) < 65536 \<Longrightarrow> drop_bit n a < 65536"
proof -
  assume a: "a < 65536"
  have "drop_bit n a \<le> a" by (simp add: drop_bit_eq_div)
  with a show ?thesis by linarith
qed

lemma crc_shift_bound: "crc < 65536 \<Longrightarrow> crc_shift crc < 65536"
proof -
  assume c: "crc < 65536"
  have d: "drop_bit 1 crc < 65536" using c by (rule drop_bit_bound16)
  have "drop_bit 1 crc XOR 0xA001 < 65536" using d by (rule xor_bound16) simp
  with d show ?thesis unfolding crc_shift_def by presburger
qed

lemma funpow_crc_shift_bound: "crc < 65536 \<Longrightarrow> (crc_shift ^^ k) crc < 65536"
  by (induction k) (simp_all add: crc_shift_bound)

lemma table_entry_bound: "i < 256 \<Longrightarrow> table_entry i < 65536"
  unfolding table_entry_def by (rule funpow_crc_shift_bound) simp

lemma and_255_bound: "(x::nat) AND 0xFF < 256"
proof -
  have "x AND 255 = take_bit 8 x"
    by (simp add: take_bit_eq_mask mask_eq_exp_minus_1)
  moreover have "take_bit 8 x < 2 ^ 8" by (rule take_bit_nat_less_exp)
  ultimately show ?thesis by simp
qed

lemma TABLE_nth: "i < 256 \<Longrightarrow> TABLE ! i = table_entry i"
  unfolding TABLE_def by simp

lemma crc_update_bound: "crc < 65536 \<Longrightarrow> crc_update b crc < 65536"
proof -
  assume c: "crc < 65536"
  have "TABLE ! ((crc XOR unat b) AND 0xFF) < 65536"
    using and_255_bound [of "crc XOR unat b"] by (simp add: TABLE_nth table_entry_bound)
  with c show ?thesis
    unfolding crc_update_def by (intro xor_bound16 drop_bit_bound16)
qed

lemma fold_crc_update_bound: "crc < 65536 \<Longrightarrow> fold crc_update d crc < 65536"
  by (induction d arbitrary: crc) (simp_all add: crc_update_bound)

text \<open>The checksum always fits 16 bits, so the packing in \<^verbatim>\<open>append\<close> never raises.\<close>

lemma calculate_bound: "CRC16_calculate d < 65536"
  unfolding CRC16_calculate_def by (rule fold_crc_update_bound) simp

lemma unpack_pack: "pack_le_H v = Some c \<Longrightarrow> unpack_le_H c = Some v"
proof -
  assume p: "pack_le_H v = Some c"
  then have v: "v \<le> 65535" and c: "c = [word_of_nat (v mod 256), word_of_nat (v div 256)]"
    by (auto simp: pack_le_H_def split: if_splits)
  have lo: "unat (word_of_nat (v mod 256) :: byte) = v mod 256"
    by (simp add: unat_of_nat)
  have "v div 256 < 256" using v by simp
  then have hi: "unat (word_of_nat (v div 256) :: byte) = v div 256"
    by (simp add: unat_of_nat)
  show ?thesis unfolding c using lo hi by simp
qed

lemma append_eq:
  "CRC16_append d = Some (d @ [word_of_nat (CRC16_calculate d mod 256),
                               word_of_nat (CRC16_calculate d div 256)])"
  using calculate_bound [of d] by (simp add: CRC16_append_def pack_le_H_def)

lemma verify_append_nonempty: "d \<noteq> [] \<Longrightarrow> CRC16_append d = Some frame \<Longrightarrow> CRC16_verify frame"
proof -
  assume ne: "d \<noteq> []" and a: "CRC16_append d = Some frame"
  obtain c where pc: "pack_le_H (CRC16_calculate d) = Some c" and f: "frame = d @ c"
    using a by (auto simp: CRC16_append_def split: option.splits)
  have lc: "length c = 2" using pc by (auto simp: pack_le_H_def split: if_splits)
  have "length d > 0" using ne by simp
  then have l: "\<not> length frame < 3" using f lc by simp
  have t: "take (length frame - 2) frame = d" using f lc by simp
  have dr: "drop (length frame - 2) frame = c" using f lc by simp
  show ?thesis unfolding CRC16_verify_def using l t dr unpack_pack [OF pc] by (simp add: Let_def)
qed

lemma verify_append_empty: "CRC16_append [] = Some frame \<Longrightarrow> \<not> CRC16_verify frame"
  by (auto simp: CRC16_append_def CRC16_verify_def pack_le_H_def split: option.splits if_splits)

lemma calculate_Nil: "CRC16_calculate [] = 65535"
  by (simp add: CRC16_calculate_def)

text \<open>
  Claim C3, as stated: for every byte sequence \<open>s\<close>, the empty one included,
  \<^verbatim>\<open>CRC16.verify(CRC16.append(s))\<close> is true. It fails at the empty sequence: sealing it
  gives the two checksum bytes \<open>FF FF\<close> alone, and \<^verbatim>\<open>verify\<close> rejects every frame shorter
  than three bytes.
\<close>

theorem C3_empty_counterexample:
  "CRC16_append [] = Some [0xFF, 0xFF] \<and> CRC16_verify [0xFF, 0xFF] = False"
  by (simp add: CRC16_append_def pack_le_H_def calculate_Nil CRC16_verify_def)

text \<open>
  Claim C3, amended: sealing never raises and appends the table-driven CRC-16 low byte
  first; the sealed frame verifies exactly when the byte sequence is not empty.
\<close>

theorem C3_verify_append:
  "\<exists>frame. CRC16_append s = Some frame
     \<and> frame = s @ [word_of_nat (CRC16_calculate s mod 256), word_of_nat (CRC16_calculate s div 256)]
     \<and> (CRC16_verify frame \<longleftrightarrow> s \<noteq> [])"
proof -
  let ?frame = "s @ [word_of_nat (CRC16_calculate s mod 256), word_of_nat (CRC16_calculate s div 256)]"
  have a: "CRC16_append s = Some ?frame" by (rule append_eq)
  have "CRC16_verify ?frame \<longleftrightarrow> s \<noteq> []"
  proof (cases "s = []")
    case True
    then show ?thesis using a verify_append_empty by blast
  next
    case False
    then show ?thesis using a verify_append_nonempty by blast
  qed
  with a show ?thesis by blast
qed

section \<open>Properties of the register view\<close>

lemma slice_two: "i + 1 < length d \<Longrightarrow> slice d i (i + 2) = [d ! i, d ! (i + 1)]"
proof -
  assume a: "i + 1 < length d"
  have "drop i d = d ! i # drop (Suc i) d" using a by (simp add: Cons_nth_drop_Suc)
  moreover have "drop (Suc i) d = d ! (Suc i) # drop (Suc (Suc i)) d"
    using a by (simp add: Cons_nth_drop_Suc)
  ultimately show ?thesis by (simp add: slice_def)
qed

lemma registers_loop_eq:
  "even i \<Longrightarrow>
   registers_loop d i result = Some (result @ map (be16 d) [i div 2 ..< length d div 2])"
proof (induction d i result rule: registers_loop.induct)
  case (1 d i result)
  obtain m where m: "i = 2 * m" using "1.prems" by (auto elim: evenE)
  show ?case
  proof (cases "i < length d")
    case False
    then have "length d div 2 \<le> i div 2" by (simp add: div_le_mono)
    with False show ?thesis by (subst registers_loop.simps) simp
  next
    case True
    show ?thesis
    proof (cases "i + 1 < length d")
      case False
      with True have "length d = i + 1" by simp
      then have e: "length d div 2 = m" using m by simp
      have ev: "even (i + 2)" using "1.prems" by simp
      have "registers_loop d (i + 2) result
              = Some (result @ map (be16 d) [(i + 2) div 2 ..< length d div 2])"
        using "1.IH"(2) [OF True False ev] .
      then show ?thesis using True False e m
        by (subst registers_loop.simps) simp
    next
      case t: True
      have s: "slice d i (i + 2) = [d ! i, d ! (i + 1)]" using t by (rule slice_two)
      then have u: "unpack_be_H (slice d i (i + 2)) = Some (be16 d m)"
        using m by (simp add: be16_def)
      have ev: "even (i + 2)" using "1.prems" by simp
      have ih: "registers_loop d (i + 2) (result @ [be16 d m])
                 = Some ((result @ [be16 d m]) @ map (be16 d) [(i + 2) div 2 ..< length d div 2])"
        using "1.IH"(1) [OF True t u ev] .
      have lt: "m < length d div 2" using t m by simp
      have "[m ..< length d div 2] = m # [Suc m ..< length d div 2]"
        using lt by (simp add: upt_conv_Cons)
      then show ?thesis using True t u ih m
        by (subst registers_loop.simps) simp
    qed
  qed
qed

lemma registers_eq: "registers r = Some (map (be16 (data r)) [0 ..< length (data r) div 2])"
  unfolding registers_def using registers_loop_eq [of 0 "data r" "[]"] by simp

text \<open>
  Claim C10: for every response the register list has \<open>\<lfloor>len(data) / 2\<rfloor>\<close> entries, entry
  \<open>i\<close> is the big-endian unsigned 16-bit value of the bytes \<open>2i\<close> and \<open>2i + 1\<close>, and the
  unpacking never raises; a last byte without a partner adds nothing.
\<close>

theorem C10_registers:
  "\<exists>regs. registers r = Some regs
     \<and> length regs = length (data r) div 2
     \<and> (\<forall>i < length (data r) div 2.
           regs ! i = 256 * unat (data r ! (2 * i)) + unat (data r ! (2 * i + 1)))"
  by (simp add: registers_eq be16_def)

theorem C10_registers_witness:
  "\<exists>regs. registers \<lparr>slave_address = 1, function_code = 3,
                      data = [0x2E, 0xE0, 0x13, 0x88, 0x07], is_error = False, error_code = 0\<rparr>
             = Some regs
     \<and> length regs = 2 \<and> regs ! 0 = 12000 \<and> regs ! 1 = 5000"
  using C10_registers [of "\<lparr>slave_address = 1, function_code = 3,
                      data = [0x2E, 0xE0, 0x13, 0x88, 0x07], is_error = False, error_code = 0\<rparr>"]
  by auto

section \<open>Properties of the PID controller\<close>

lemma time_step_pos: "0 < time_step now c"
proof (cases "last_time c")
  case None
  then show ?thesis by (simp add: time_step_def)
next
  case (Some t)
  have "(0::real) < 0.01" by simp
  also have "\<dots> \<le> max 0.01 (now - t)" by (rule max.cobounded1)
  finally show ?thesis using Some by (simp add: time_step_def)
qed

lemma pid_terms_fst:
  "output_min (fst (pid_terms c dt sp m)) = output_min c"
  "output_max (fst (pid_terms c dt sp m)) = output_max c"
  "output_rate_limit (fst (pid_terms c dt sp m)) = output_rate_limit c"
  "pid_output (fst (pid_terms c dt sp m)) = pid_output c"
  by (simp_all add: pid_terms_def Let_def)

lemma pid_terms_fields:
  "pid_terms c dt sp m = (c', raw) \<Longrightarrow>
     output_min c' = output_min c \<and> output_max c' = output_max c
     \<and> output_rate_limit c' = output_rate_limit c \<and> pid_output c' = pid_output c"
proof -
  assume "pid_terms c dt sp m = (c', raw)"
  then have "c' = fst (pid_terms c dt sp m)" by simp
  then show ?thesis by (simp only: pid_terms_fst)
qed

lemma anti_windup_fields:
  "output_min (anti_windup c r n) = output_min c \<and> output_max (anti_windup c r n) = output_max c
     \<and> output_rate_limit (anti_windup c r n) = output_rate_limit c
     \<and> pid_output (anti_windup c r n) = pid_output c"
  by (simp add: anti_windup_def)

lemma rate_limit_bounds:
  assumes lo: "lo \<le> pid_output c" and hi: "pid_output c \<le> hi"
    and nlo: "lo \<le> n" and nhi: "n \<le> hi" and dt: "0 < dt"
  shows "lo \<le> rate_limit c dt n \<and> rate_limit c dt n \<le> hi"
proof -
  define M where "M = output_rate_limit c * dt"
  define p where "p = pid_output c"
  have r: "rate_limit c dt n =
             (if output_rate_limit c > 0
              then (if \<bar>n - p\<bar> > M then p + M * (if n - p > 0 then 1 else - 1) else n)
              else n)"
    using dt by (simp add: rate_limit_def Let_def M_def p_def)
  show ?thesis
  proof (cases "output_rate_limit c > 0 \<and> \<bar>n - p\<bar> > M")
    case False
    then have "rate_limit c dt n = n" unfolding r by presburger
    then show ?thesis using nlo nhi by simp
  next
    case True
    then have M: "0 < M" unfolding M_def using dt by simp
    show ?thesis
    proof (cases "n - p > 0")
      case pos: True
      have "rate_limit c dt n = p + M" unfolding r using True pos by simp
      moreover have "M < n - p" using True pos by linarith
      ultimately show ?thesis using lo hi nlo nhi M unfolding p_def by linarith
    next
      case neg: False
      have "rate_limit c dt n = p - M" unfolding r using True neg by simp
      moreover have "M < p - n" using True neg by linarith
      ultimately show ?thesis using lo hi nlo nhi M unfolding p_def by linarith
    qed
  qed
qed

lemma compute_unfold:
  assumes p: "pid_terms (c\<lparr>last_time := Some now\<rparr>) (time_step now c) sp m = (c1, raw)"
  shows "compute now c sp m =
    (let new_output = max (output_min c1) (min (output_max c1) raw);
         c2 = anti_windup c1 raw new_output;
         out = rate_limit c2 (time_step now c) new_output
     in (c2\<lparr>pid_output := out\<rparr>, out))"
  unfolding compute_def Let_def p by simp

lemma compute_fields:
  "compute now c sp m = (c', out) \<Longrightarrow>
     output_min c' = output_min c \<and> output_max c' = output_max c
     \<and> output_rate_limit c' = output_rate_limit c \<and> out = pid_output c'"
proof -
  assume a: "compute now c sp m = (c', out)"
  obtain c1 raw where p: "pid_terms (c\<lparr>last_time := Some now\<rparr>) (time_step now c) sp m = (c1, raw)"
    by (cases "pid_terms (c\<lparr>last_time := Some now\<rparr>) (time_step now c) sp m") 
  note f = pid_terms_fields [OF p]
  have "c' = fst (compute now c sp m)" and "out = snd (compute now c sp m)"
    using a by simp_all
  then have c': "c' = (anti_windup c1 raw (max (output_min c1) (min (output_max c1) raw)))\<lparr>pid_output := out\<rparr>"
    unfolding compute_unfold [OF p] Let_def by simp
  show ?thesis unfolding c' using f by (simp add: anti_windup_fields)
qed

lemma compute_bounds:
  assumes a: "compute now c sp m = (c', out)"
    and le: "output_min c \<le> output_max c"
    and lo: "output_min c \<le> pid_output c" and hi: "pid_output c \<le> output_max c"
  shows "output_min c \<le> out \<and> out \<le> output_max c"
proof -
  obtain c1 raw where p: "pid_terms (c\<lparr>last_time := Some now\<rparr>) (time_step now c) sp m = (c1, raw)"
    by (cases "pid_terms (c\<lparr>last_time := Some now\<rparr>) (time_step now c) sp m") 
  note f = pid_terms_fields [OF p]
  let ?n = "max (output_min c) (min (output_max c) raw)"
  let ?c2 = "anti_windup c1 raw ?n"
  have "out = snd (compute now c sp m)" using a by simp
  then have "out = rate_limit (anti_windup c1 raw (max (output_min c1) (min (output_max c1) raw)))
                 (time_step now c) (max (output_min c1) (min (output_max c1) raw))"
    unfolding compute_unfold [OF p] Let_def by simp
  then have out: "out = rate_limit ?c2 (time_step now c) ?n"
    using f by simp
  have n: "output_min c \<le> ?n \<and> ?n \<le> output_max c" using le by simp
  have po: "pid_output ?c2 = pid_output c" using f by (simp add: anti_windup_fields)
  have lo2: "output_min c \<le> pid_output ?c2" using po lo by simp
  have hi2: "pid_output ?c2 \<le> output_max c" using po hi by simp
  have n1: "output_min c \<le> ?n" using n by (rule conjunct1)
  have n2: "?n \<le> output_max c" using n by (rule conjunct2)
  show ?thesis unfolding out
    using lo2 hi2 n1 n2 time_step_pos by (rule rate_limit_bounds)
qed

lemma run_bounds:
  "output_min c \<le> output_max c \<Longrightarrow> output_min c \<le> pid_output c \<Longrightarrow> pid_output c \<le> output_max c \<Longrightarrow>
   run c calls = (c', outs) \<Longrightarrow>
   (\<forall>out \<in> set outs. output_min c \<le> out \<and> out \<le> output_max c)
   \<and> output_min c \<le> pid_output c' \<and> pid_output c' \<le> output_max c
   \<and> output_min c' = output_min c \<and> output_max c' = output_max c"
proof (induction calls arbitrary: c c' outs)
  case Nil
  then show ?case by simp
next
  case (Cons call calls)
  obtain now sp m where call: "call = (now, sp, m)" by (cases call)
  obtain c1 out where c1: "compute now c sp m = (c1, out)" by (cases "compute now c sp m")
  obtain c2 outs2 where c2: "run c1 calls = (c2, outs2)" by (cases "run c1 calls")
  have res: "c' = c2" "outs = out # outs2" using Cons.prems(4) call c1 c2 by simp_all
  note f = compute_fields [OF c1]
  note b = compute_bounds [OF c1 Cons.prems(1) Cons.prems(2) Cons.prems(3)]
  have "(\<forall>out \<in> set outs2. output_min c1 \<le> out \<and> out \<le> output_max c1)
   \<and> output_min c1 \<le> pid_output c2 \<and> pid_output c2 \<le> output_max c1
   \<and> output_min c2 = output_min c1 \<and> output_max c2 = output_max c1"
    by (rule Cons.IH [OF _ _ _ c2]) (use f b Cons.prems(1) in simp_all)
  then show ?case using res f b by simp
qed

lemma pid_terms_P_only:
  assumes "kp c = 1" "ki c = 0" "kd c = 0" "\<not> reverse c"
  shows "snd (pid_terms c dt 10 15) = 5"
  using assms by (simp add: pid_terms_def Let_def)

lemma pid_terms_fst_kp:
  "kp (fst (pid_terms c dt sp m)) = kp c"
  "ki (fst (pid_terms c dt sp m)) = ki c"
  by (simp_all add: pid_terms_def Let_def)

lemma first_compute_P_only:
  assumes g: "kp c = 1" "ki c = 0" "kd c = 0" "\<not> reverse c"
    and t: "last_time c = None" and o: "pid_output c = 0"
    and b: "output_min c = 0" "output_max c = 7"
  shows "snd (compute now c 10 15)
           = (if 0 < output_rate_limit c \<and> output_rate_limit c < 5 then output_rate_limit c else 5)"
proof -
  let ?c0 = "c\<lparr>last_time := Some now\<rparr>"
  have dt: "time_step now c = 1" using t by (simp add: time_step_def)
  obtain c1 raw where p: "pid_terms ?c0 (time_step now c) 10 15 = (c1, raw)"
    by (cases "pid_terms ?c0 (time_step now c) 10 15")
  have "snd (pid_terms ?c0 (time_step now c) 10 15) = 5"
    by (rule pid_terms_P_only) (use g in simp_all)
  then have raw: "raw = 5" using p by simp
  note f = pid_terms_fields [OF p]
  let ?c2 = "anti_windup c1 5 5"
  have c2: "pid_output ?c2 = 0" "output_rate_limit ?c2 = output_rate_limit c"
    using f o by (simp_all add: anti_windup_fields)
  have "snd (compute now c 10 15) = rate_limit ?c2 1 5"
    unfolding compute_unfold [OF p] Let_def using f b raw dt by simp
  also have "\<dots> = (if 0 < output_rate_limit c \<and> output_rate_limit c < 5 then output_rate_limit c else 5)"
    unfolding rate_limit_def Let_def c2 by simp
  finally show ?thesis .
qed

text \<open>
  Claim C2, as stated: a fresh controller with \<open>kp = 1\<close>, \<open>ki = 0\<close>, \<open>kd = 0\<close>, not reversed,
  default configuration, returns 5 from its first \<^verbatim>\<open>compute(10, 15)\<close>. The sum of the terms is
  5, inside the bounds \<open>[0, 7]\<close>, but the default rate limit 2.0 and the first call's
  \<open>dt = 1.0\<close> allow a change of 2 from the initial output 0: the call returns 2.
\<close>

theorem C2_default_counterexample:
  "snd (compute 0 (PIDController_init 1 0 0 0 7) 10 15) = 2"
  using first_compute_P_only [of "PIDController_init 1 0 0 0 7" 0]
  by (simp add: PIDController_init_def)

text \<open>
  Claim C2, amended: for a fresh or reset controller with \<open>kp = 1\<close>, \<open>ki = 0\<close>, \<open>kd = 0\<close>, not
  reversed, bounds \<open>[0, 7]\<close>, the first \<^verbatim>\<open>compute(10, 15)\<close> returns the clamped sum 5 passed
  through the rate limiter: the rate limit itself when it lies strictly between 0 and 5
  (2 by default), and 5 when the limiter is off (\<open>\<le> 0\<close>) or allows the step (\<open>\<ge> 5\<close>).
\<close>

theorem C2_first_compute:
  assumes "kp c = 1" and "ki c = 0" and "kd c = 0" and "\<not> reverse c"
    and "output_min c = 0" and "output_max c = 7"
  shows "snd (compute now (reset c) 10 15)
           = (if 0 < output_rate_limit c \<and> output_rate_limit c < 5 then output_rate_limit c else 5)"
  using first_compute_P_only [of "reset c" now] assms by (simp add: reset_def)

theorem C2_first_compute_witness:
  "snd (compute 0 (reset (PIDController_init 1 0 0 0 7)) 10 15) = 2
   \<and> snd (compute 0 (reset ((PIDController_init 1 0 0 0 7)\<lparr>output_rate_limit := 0\<rparr>)) 10 15) = 5"
  using C2_first_compute [of "PIDController_init 1 0 0 0 7" 0]
    C2_first_compute [of "(PIDController_init 1 0 0 0 7)\<lparr>output_rate_limit := 0\<rparr>" 0]
  by (simp add: PIDController_init_def)

text \<open>
  Claim C9: if \<open>output_min \<le> 0 \<le> output_max\<close> and \<open>output_rate_limit \<ge> 0\<close>, then from
  \<^verbatim>\<open>reset()\<close> on, every value returned by \<^verbatim>\<open>compute\<close> and the stored last output lie in
  \<open>[output_min, output_max]\<close>, for every sequence of calls with arbitrary clock readings,
  setpoints and measurements.
\<close>

theorem C9_output_bounded:
  assumes "output_min c \<le> 0" and "0 \<le> output_max c" and "0 \<le> output_rate_limit c"
    and "run (reset c) calls = (c', outs)"
  shows "(\<forall>out \<in> set outs. output_min c \<le> out \<and> out \<le> output_max c)
         \<and> output_min c \<le> pid_output c' \<and> pid_output c' \<le> output_max c"
proof -
  have "(\<forall>out \<in> set outs. output_min (reset c) \<le> out \<and> out \<le> output_max (reset c))
   \<and> output_min (reset c) \<le> pid_output c' \<and> pid_output c' \<le> output_max (reset c)
   \<and> output_min c' = output_min (reset c) \<and> output_max c' = output_max (reset c)"
    by (rule run_bounds [OF _ _ _ assms(4)]) (use assms(1,2) in \<open>simp_all add: reset_def\<close>)
  then show ?thesis by (simp add: reset_def)
qed

theorem C9_output_bounded_witness:
  "snd (run (reset (PIDController_init 1 0 0 0 7)) [(0, 10, 15)]) = [2]
   \<and> list_all (\<lambda>out. 0 \<le> out \<and> out \<le> 7)
         (snd (run (reset (PIDController_init 1 0 0 0 7)) [(0, 10, 15), (1, 10, 15), (2, 10, - 40)]))
   \<and> 0 \<le> pid_output (fst (run (reset (PIDController_init 1 0 0 0 7))
                               [(0, 10, 15), (1, 10, 15), (2, 10, - 40)]))
   \<and> pid_output (fst (run (reset (PIDController_init 1 0 0 0 7))
                          [(0, 10, 15), (1, 10, 15), (2, 10, - 40)])) \<le> 7"
proof -
  let ?c = "PIDController_init 1 0 0 0 7"
  let ?calls = "[(0, 10, 15), (1, 10, 15), (2, 10, - 40)] :: (real \<times> real \<times> real) list"
  have cfg: "output_min ?c = 0" "output_max ?c = 7" "output_rate_limit ?c = 2"
    by (simp_all add: PIDController_init_def)
  have r: "run (reset ?c) ?calls = (fst (run (reset ?c) ?calls), snd (run (reset ?c) ?calls))"
    by (rule prod.collapse [symmetric])
  have b: "(\<forall>out \<in> set (snd (run (reset ?c) ?calls)). output_min ?c \<le> out \<and> out \<le> output_max ?c)
         \<and> output_min ?c \<le> pid_output (fst (run (reset ?c) ?calls))
         \<and> pid_output (fst (run (reset ?c) ?calls)) \<le> output_max ?c"
    by (rule C9_output_bounded [OF _ _ _ r]) (simp_all add: cfg)
  have one: "snd (compute 0 (reset ?c) 10 15) = 2"
    using first_compute_P_only [of "reset ?c" 0]
    by (simp add: PIDController_init_def reset_def)
  have "snd (run (reset ?c) [(0, 10, 15)]) = [2]"
    using one by (simp add: case_prod_beta)
  then show ?thesis using b unfolding cfg list_all_iff by blast
qed

end
